theory Spec2Isabelle
  imports Main "HOL-Library.Option_ord" "HOL-Library.Multiset"
begin

section \<open>Data model\<close>

text \<open>
  The controllers of \<^verbatim>\<open>server2/src/controllers/blogsController.ts\<close> work on the
  documents of one collection, \<^verbatim>\<open>BlogModel\<close>. A document is a record; the collection is
  the list of its documents in insertion order, together with the counter from which the
  store draws the \<^verbatim>\<open>_id\<close> of the next document. Timestamps (\<^verbatim>\<open>Date\<close> values) are
  integers: milliseconds since the epoch. An identity (\<^verbatim>\<open>req.user.id\<close>, and the
  \<^verbatim>\<open>author\<close> reference of a document read back with \<^verbatim>\<open>toString()\<close>) is the
  canonical string of the identifier.
\<close>

type_synonym timestamp = int

record tag =
  tag_name :: string
  tag_slug :: string

record blog =
  blog_id :: nat
  title :: string
  content :: string
  imageUrl :: "string option"
  slug :: string
  author :: string
  tags :: "tag list"
  isPublished :: bool
  isDraft :: bool
  publishedAt :: "timestamp option"
  createdAt :: timestamp
  updatedAt :: timestamp

record store =
  blogs :: "blog list"
  nextId :: nat

text \<open>The list view of a document: \<^verbatim>\<open>.select("title author publishedAt slug")\<close>.\<close>

record blog_view =
  view_id :: nat
  view_title :: string
  view_author :: string
  view_publishedAt :: "timestamp option"
  view_slug :: string

definition select_view :: "blog \<Rightarrow> blog_view" where
  "select_view b =
     \<lparr>view_id = blog_id b, view_title = title b, view_author = author b,
      view_publishedAt = publishedAt b, view_slug = slug b\<rparr>"

subsection \<open>Requests and responses\<close>

text \<open>
  \<^verbatim>\<open>req.body\<close> of the create and update requests: every field may be absent. Strings
  are falsy when absent or empty, and \<^verbatim>\<open>tags\<close> is a list of tag names.
  \<^verbatim>\<open>isPublished\<close> is the JSON value that the client sends, not only a boolean: the
  handlers test it the way JavaScript does (\<open>js_truthy\<close>: \<^verbatim>\<open>false\<close> and \<open>0\<close> are falsy,
  every non-empty string is truthy), and the store casts it to the Boolean of the schema.
\<close>

datatype json_boolean =
    JBool bool
  | JNum_0 | JNum_1
  | JStr_true | JStr_1 | JStr_yes
  | JStr_false | JStr_0 | JStr_no

definition js_truthy :: "json_boolean \<Rightarrow> bool" where
  "js_truthy v = (case v of JBool b \<Rightarrow> b | JNum_0 \<Rightarrow> False | _ \<Rightarrow> True)"

text \<open>
  Modelled from the spec: the schema (\<^verbatim>\<open>models/blog.schema\<close>), which declares
  \<^verbatim>\<open>isPublished\<close> a Boolean that every article has. The store casts \<^verbatim>\<open>true\<close>,
  \<open>1\<close>, \<^verbatim>\<open>"true"\<close>, \<^verbatim>\<open>"1"\<close> and \<^verbatim>\<open>"yes"\<close> to true, and \<^verbatim>\<open>false\<close>, \<open>0\<close>,
  \<^verbatim>\<open>"false"\<close>, \<^verbatim>\<open>"0"\<close> and \<^verbatim>\<open>"no"\<close> to false. The save of a document with any
  other value fails, the handler answers 500 and nothing is written: the values of
  \<open>json_boolean\<close> are those that the cast accepts.
\<close>

definition castBoolean :: "json_boolean \<Rightarrow> bool" where
  "castBoolean v =
     (case v of
        JBool b \<Rightarrow> b
      | JNum_1 \<Rightarrow> True | JStr_true \<Rightarrow> True | JStr_1 \<Rightarrow> True | JStr_yes \<Rightarrow> True
      | _ \<Rightarrow> False)"

record blog_body =
  body_title :: "string option"
  body_content :: "string option"
  body_imageUrl :: "string option"
  body_tags :: "string list option"
  body_isPublished :: "json_boolean option"

record auth_request =
  user_id :: "string option"
  params_slug :: string
  body :: blog_body

record list_request =
  query_limit :: "string option"
  query_cursor :: "string option"

datatype payload =
    Message string
  | BlogPayload string blog
  | PagePayload string "blog_view list" "timestamp option"
  | BlogsPayload string "blog_view list"

type_synonym response = "nat \<times> payload"

definition status :: "response \<Rightarrow> nat" where
  "status r = fst r"

definition truthy :: "string option \<Rightarrow> bool" where
  "truthy s = (case s of None \<Rightarrow> False | Some x \<Rightarrow> x \<noteq> [])"

section \<open>The store's operations\<close>

text \<open>
  \<^verbatim>\<open>BlogModel.findOne({ slug })\<close>: the first document with that slug.
\<close>

definition findOne_slug :: "blog list \<Rightarrow> string \<Rightarrow> blog option" where
  "findOne_slug bs s = find (\<lambda>b. slug b = s) bs"

text \<open>
  \<^verbatim>\<open>doc.save()\<close> of a document read from the store writes it back over the document
  with the same \<^verbatim>\<open>_id\<close>; \<^verbatim>\<open>deleteOne({ _id })\<close> removes that document.
\<close>

fun save_doc :: "blog \<Rightarrow> blog list \<Rightarrow> blog list" where
  "save_doc d [] = []"
| "save_doc d (b # bs) = (if blog_id b = blog_id d then d # bs else b # save_doc d bs)"

fun deleteOne_id :: "nat \<Rightarrow> blog list \<Rightarrow> blog list" where
  "deleteOne_id i [] = []"
| "deleteOne_id i (b # bs) = (if blog_id b = i then bs else b # deleteOne_id i bs)"

text \<open>
  \<^verbatim>\<open>.sort({ publishedAt: -1 })\<close>: descending by \<^verbatim>\<open>publishedAt\<close>, a missing date
  below every date (so last), documents with equal keys in store order.
\<close>

definition sort_desc :: "blog list \<Rightarrow> blog list" where
  "sort_desc bs = rev (sort_key publishedAt (rev bs))"

text \<open>
  \<^verbatim>\<open>.limit(n)\<close>: at most \<open>n\<close> documents; \<open>0\<close> is no limit and a negative \<open>n\<close> counts as
  its absolute value.
\<close>

definition mongo_limit :: "int \<Rightarrow> 'a list \<Rightarrow> 'a list" where
  "mongo_limit n xs = (if n = 0 then xs else take (nat \<bar>n\<bar>) xs)"

text \<open>
  \<^verbatim>\<open>{ publishedAt: { $lt: c } }\<close>: the documents that have a date, earlier than \<open>c\<close>.
\<close>

definition publishedAt_lt :: "timestamp \<Rightarrow> blog \<Rightarrow> bool" where
  "publishedAt_lt c b = (case publishedAt b of None \<Rightarrow> False | Some t \<Rightarrow> t < c)"

section \<open>Creating an article\<close>

text \<open>
  The decimal rendering of the counter in the template literal
  \<^verbatim>\<open>`${baseSlug}-${slugCounter++}`\<close>.
\<close>

definition digit_char :: "nat \<Rightarrow> char" where
  "digit_char d = char_of (48 + d)"

fun show_nat :: "nat \<Rightarrow> string" where
  "show_nat n = (if n < 10 then [digit_char n] else show_nat (n div 10) @ [digit_char (n mod 10)])"

declare show_nat.simps [simp del]

definition suffixed :: "string \<Rightarrow> nat \<Rightarrow> string" where
  "suffixed baseSlug k = baseSlug @ ''-'' @ show_nat k"

text \<open>
  The resolution loop of \<^verbatim>\<open>postBlog\<close>:
  \<^verbatim>\<open>while (await BlogModel.findOne({ slug })) { slug = `${baseSlug}-${slugCounter++}`; }\<close>
  The state of the loop is the current \<^verbatim>\<open>slug\<close> and \<^verbatim>\<open>slugCounter\<close>.
\<close>

function slug_loop :: "blog list \<Rightarrow> string \<Rightarrow> string \<Rightarrow> nat \<Rightarrow> string" where
  "slug_loop bs baseSlug s slugCounter =
     (if findOne_slug bs s \<noteq> None
      then slug_loop bs baseSlug (suffixed baseSlug slugCounter) (slugCounter + 1)
      else s)"
  by pat_completeness auto

definition resolve_slug :: "blog list \<Rightarrow> string \<Rightarrow> string" where
  "resolve_slug bs baseSlug = slug_loop bs baseSlug baseSlug 1"

text \<open>
  \<^verbatim>\<open>generateSlug\<close> (\<^verbatim>\<open>helpers/generateSlug\<close>) is a parameter of the controllers that
  call it, and \<^verbatim>\<open>new Date()\<close> is the parameter \<open>now\<close>.
\<close>

definition str :: "string option \<Rightarrow> string" where
  "str s = (case s of None \<Rightarrow> [] | Some x \<Rightarrow> x)"

definition format_tags :: "(string \<Rightarrow> string) \<Rightarrow> string list \<Rightarrow> tag list" where
  "format_tags generateSlug ts = map (\<lambda>n. \<lparr>tag_name = n, tag_slug = generateSlug n\<rparr>) ts"

definition tags_or_default :: "blog_body \<Rightarrow> string list" where
  "tags_or_default bd = (case body_tags bd of None \<Rightarrow> [] | Some ts \<Rightarrow> ts)"

text \<open>
  The destructuring default \<^verbatim>\<open>isPublished = true\<close>: it stands in for an absent value
  only.
\<close>

definition isPublished_or_default :: "blog_body \<Rightarrow> json_boolean" where
  "isPublished_or_default bd = (case body_isPublished bd of None \<Rightarrow> JBool True | Some v \<Rightarrow> v)"

text \<open>
  Modelled from the spec: the schema (\<^verbatim>\<open>models/blog.schema\<close>) that gives a new document
  its \<^verbatim>\<open>_id\<close>, \<^verbatim>\<open>createdAt\<close> and \<^verbatim>\<open>updatedAt\<close>: the identifier is fresh and both
  timestamps are the time of creation.
\<close>

definition new_BlogModel ::
  "nat \<Rightarrow> timestamp \<Rightarrow> string \<Rightarrow> string \<Rightarrow> string option \<Rightarrow> string \<Rightarrow> string \<Rightarrow> tag list
     \<Rightarrow> bool \<Rightarrow> bool \<Rightarrow> timestamp option \<Rightarrow> blog" where
  "new_BlogModel i now t c img s a tgs pub draft pubAt =
     \<lparr>blog_id = i, title = t, content = c, imageUrl = img, slug = s, author = a, tags = tgs,
      isPublished = pub, isDraft = draft, publishedAt = pubAt, createdAt = now, updatedAt = now\<rparr>"

definition postBlog ::
  "(string \<Rightarrow> string) \<Rightarrow> timestamp \<Rightarrow> store \<Rightarrow> auth_request \<Rightarrow> response \<times> store" where
  "postBlog generateSlug now st req =
     (let tags' = tags_or_default (body req);
          isPublished' = isPublished_or_default (body req)
      in if \<not> truthy (body_title (body req)) \<or> \<not> truthy (body_content (body req))
         then ((400, Message ''Title and Content are required''), st)
         else if \<not> truthy (user_id req)
         then ((401, Message ''Not authorized''), st)
         else
           let baseSlug = generateSlug (str (body_title (body req)));
               slug' = resolve_slug (blogs st) baseSlug;
               formattedTags = format_tags generateSlug tags';
               newBlog = new_BlogModel (nextId st) now
                           (str (body_title (body req))) (str (body_content (body req)))
                           (body_imageUrl (body req)) slug' (str (user_id req)) formattedTags
                           (castBoolean isPublished') (\<not> js_truthy isPublished')
                           (if js_truthy isPublished' then Some now else None)
           in ((201, BlogPayload ''Blog created successfully'' newBlog),
               \<lparr>blogs = blogs st @ [newBlog], nextId = Suc (nextId st)\<rparr>))"

section \<open>Updating and deleting an article\<close>

definition apply_patch :: "(string \<Rightarrow> string) \<Rightarrow> timestamp \<Rightarrow> blog_body \<Rightarrow> blog \<Rightarrow> blog" where
  "apply_patch generateSlug now bd existingBlog =
     (let tags' = tags_or_default bd;
          isPublished' = isPublished_or_default bd;
          b1 = (if truthy (body_title bd) then existingBlog\<lparr>title := str (body_title bd)\<rparr>
                else existingBlog);
          b2 = (if truthy (body_content bd) then b1\<lparr>content := str (body_content bd)\<rparr> else b1);
          b3 = (if truthy (body_imageUrl bd) then b2\<lparr>imageUrl := body_imageUrl bd\<rparr> else b2);
          b4 = (if length tags' > 0 then b3\<lparr>tags := format_tags generateSlug tags'\<rparr> else b3)
      in b4\<lparr>isPublished := castBoolean isPublished', isDraft := \<not> js_truthy isPublished',
            updatedAt := now\<rparr>)"

definition updateBlogController ::
  "(string \<Rightarrow> string) \<Rightarrow> timestamp \<Rightarrow> store \<Rightarrow> auth_request \<Rightarrow> response \<times> store" where
  "updateBlogController generateSlug now st req =
     (if params_slug req = [] \<or> \<not> truthy (user_id req)
      then ((400, Message ''Slug and user are required''), st)
      else case findOne_slug (blogs st) (params_slug req) of
        None \<Rightarrow> ((404, Message ''Blog not found''), st)
      | Some existingBlog \<Rightarrow>
          if author existingBlog \<noteq> str (user_id req)
          then ((403, Message ''Unauthorized''), st)
          else
            let updated = apply_patch generateSlug now (body req) existingBlog
            in ((200, BlogPayload ''Blog updated successfully'' updated),
                st\<lparr>blogs := save_doc updated (blogs st)\<rparr>))"

definition deleteBlogController :: "store \<Rightarrow> auth_request \<Rightarrow> response \<times> store" where
  "deleteBlogController st req =
     (if params_slug req = [] \<or> \<not> truthy (user_id req)
      then ((400, Message ''Slug and user are required''), st)
      else case findOne_slug (blogs st) (params_slug req) of
        None \<Rightarrow> ((404, Message ''Blog not found''), st)
      | Some blog \<Rightarrow>
          if author blog \<noteq> str (user_id req)
          then ((403, Message ''Unauthorized''), st)
          else ((200, Message ''Blog deleted successfully''),
                st\<lparr>blogs := deleteOne_id (blog_id blog) (blogs st)\<rparr>))"

section \<open>Listing\<close>

text \<open>
  \<^verbatim>\<open>BlogModel.find({ author: new mongoose.Types.ObjectId(authorId) })\<close>: the documents
  whose author is the acting identity, that identity being the canonical string of an
  identifier.
\<close>

definition allBlogsOfUser :: "blog list \<Rightarrow> auth_request \<Rightarrow> response" where
  "allBlogsOfUser bs req =
     (if \<not> truthy (user_id req) then (401, Message ''Not authorized'')
      else
        let authorId = str (user_id req);
            blogs' = map select_view (sort_desc (filter (\<lambda>b. author b = authorId) bs))
        in if length blogs' = 0 then (404, Message ''No blogs found for this user'')
           else (200, BlogsPayload ''Fetching successfull'' blogs'))"

text \<open>
  \<^verbatim>\<open>parseInt\<close> without a radix: leading white space (of ASCII) is skipped, then an
  optional sign, then an optional \<^verbatim>\<open>0x\<close> prefix (radix 16), then the longest run of
  digits of the radix; no digit gives \<^verbatim>\<open>NaN\<close>, here \<open>None\<close>. The value is the exact
  integer, as the number of JavaScript is below \<open>2^53\<close>.
\<close>

definition isWhiteSpace :: "char \<Rightarrow> bool" where
  "isWhiteSpace c = ((of_char c :: nat) \<in> {9, 10, 11, 12, 13, 32})"

definition digit_value :: "char \<Rightarrow> nat option" where
  "digit_value c =
     (let n = (of_char c :: nat)
      in if 48 \<le> n \<and> n \<le> 57 then Some (n - 48)
         else if 97 \<le> n \<and> n \<le> 122 then Some (n - 87)
         else if 65 \<le> n \<and> n \<le> 90 then Some (n - 55)
         else None)"

fun parse_digits :: "nat \<Rightarrow> string \<Rightarrow> nat option \<Rightarrow> nat option" where
  "parse_digits R [] acc = acc"
| "parse_digits R (c # cs) acc =
     (case digit_value c of
        None \<Rightarrow> acc
      | Some d \<Rightarrow>
          if d < R then parse_digits R cs (Some (R * (case acc of None \<Rightarrow> 0 | Some a \<Rightarrow> a) + d))
          else acc)"

definition parseInt :: "string \<Rightarrow> int option" where
  "parseInt inputString =
     (let S = dropWhile isWhiteSpace inputString;
          sign = (if take 1 S = ''-'' then - 1 else 1);
          S1 = (if take 1 S = ''+'' \<or> take 1 S = ''-'' then drop 1 S else S);
          hex = (take 2 S1 = ''0x'' \<or> take 2 S1 = ''0X'');
          R = (if hex then 16 else 10);
          Z = (if hex then drop 2 S1 else S1)
      in case parse_digits R Z None of None \<Rightarrow> None | Some n \<Rightarrow> Some (sign * int n))"

text \<open>
  \<^verbatim>\<open>const limit = parseInt(req.query.limit as string) || 10;\<close>
  (\<^verbatim>\<open>NaN\<close> and \<open>0\<close> are falsy).
\<close>

definition parse_limit :: "string option \<Rightarrow> int" where
  "parse_limit q =
     (case (case q of None \<Rightarrow> None | Some s \<Rightarrow> parseInt s) of
        None \<Rightarrow> 10
      | Some n \<Rightarrow> if n = 0 then 10 else n)"

text \<open>
  The query of \<^verbatim>\<open>getAllBlogs\<close>: \<open>None\<close> is the empty query \<^verbatim>\<open>{}\<close>, \<open>Some c\<close> is
  \<^verbatim>\<open>{ publishedAt: { $lt: c } }\<close>.
\<close>

definition run_query :: "timestamp option \<Rightarrow> blog list \<Rightarrow> blog list" where
  "run_query q bs = (case q of None \<Rightarrow> bs | Some c \<Rightarrow> filter (publishedAt_lt c) bs)"

text \<open>
  \<^verbatim>\<open>new Date(cursor)\<close> is the parameter \<open>newDate\<close>, \<open>None\<close> for an invalid date; a query
  on an invalid date is refused by the store and the handler answers 500. Reading
  \<^verbatim>\<open>publishedAt\<close> of the last element of an empty page throws, and the handler
  answers 500 as well.
\<close>

definition getAllBlogs ::
  "(string \<Rightarrow> timestamp option) \<Rightarrow> blog list \<Rightarrow> list_request \<Rightarrow> response" where
  "getAllBlogs newDate bs req =
     (let limit = parse_limit (query_limit req);
          cursor = query_cursor req
      in if truthy cursor \<and> newDate (str cursor) = None
         then (500, Message ''Internal server error'')
         else
           let query = (if truthy cursor then newDate (str cursor) else None);
               blogs' = map select_view (mongo_limit (limit + 1) (sort_desc (run_query query bs)));
               hasNextPage = (int (length blogs') > limit);
               paginatedBlogs = (if hasNextPage then butlast blogs' else blogs')
           in if hasNextPage
              then (case paginatedBlogs of
                      [] \<Rightarrow> (500, Message ''Internal server error'')
                    | _ # _ \<Rightarrow> (200, PagePayload ''Blogs fetched successfully'' paginatedBlogs
                                      (view_publishedAt (last paginatedBlogs))))
              else (200, PagePayload ''Blogs fetched successfully'' paginatedBlogs None))"

section \<open>Reading the whole feed\<close>


section \<open>Reachable stores\<close>

inductive reachable :: "(string \<Rightarrow> string) \<Rightarrow> store \<Rightarrow> bool" for generateSlug where
  reachable_init: "reachable generateSlug \<lparr>blogs = [], nextId = 0\<rparr>"
| reachable_post:
    "reachable generateSlug st \<Longrightarrow> reachable generateSlug (snd (postBlog generateSlug now st req))"
| reachable_update:
    "reachable generateSlug st \<Longrightarrow>
       reachable generateSlug (snd (updateBlogController generateSlug now st req))"
| reachable_delete:
    "reachable generateSlug st \<Longrightarrow> reachable generateSlug (snd (deleteBlogController st req))"

text \<open>
  A request agrees with the cast when the \<open>isPublished\<close> it sends, or the default for
  an absent one, is truthy exactly when the store casts it to true. The stores reached
  through creations and updates by such requests only:
\<close>

definition cast_agrees :: "blog_body \<Rightarrow> bool" where
  "cast_agrees bd \<longleftrightarrow>
     castBoolean (isPublished_or_default bd) = js_truthy (isPublished_or_default bd)"


section \<open>Notions used in the statements and proofs\<close>

text \<open>
  In a reachable store the identifiers of the documents are pairwise distinct and below
  the counter of the store.
\<close>

definition ids_fresh :: "store \<Rightarrow> bool" where
  "ids_fresh st \<longleftrightarrow> distinct (map blog_id (blogs st)) \<and> (\<forall>b\<in>set (blogs st). blog_id b < nextId st)"


section \<open>Example stores and requests\<close>

text \<open>
  Three documents hold the empty slug, \<^verbatim>\<open>-1\<close> and \<^verbatim>\<open>-3\<close>: the empty candidate
  resolves to \<^verbatim>\<open>-2\<close>, and a candidate that is free resolves to itself.
\<close>

definition taken_example :: "blog list" where
  "taken_example =
     [new_BlogModel 0 100 ''T'' ''C'' None '''' ''u1'' [] True False (Some 100),
      new_BlogModel 1 200 ''T'' ''C'' None ''-1'' ''u1'' [] True False (Some 200),
      new_BlogModel 2 300 ''T'' ''C'' None ''-3'' ''u1'' [] True False (Some 300)]"

text \<open>
  A store with one published article of the user \<open>u1\<close>, and requests on a slug by a
  given identity.
\<close>

definition example_blog :: blog where
  "example_blog = new_BlogModel 0 100 ''Hello'' ''Text'' None ''hello'' ''u1'' [] True False (Some 100)"

definition example_store :: store where
  "example_store = \<lparr>blogs = [example_blog], nextId = 1\<rparr>"

definition empty_body :: blog_body where
  "empty_body = \<lparr>body_title = None, body_content = None, body_imageUrl = None,
                  body_tags = None, body_isPublished = None\<rparr>"

definition request_by :: "string option \<Rightarrow> string \<Rightarrow> auth_request" where
  "request_by u s = \<lparr>user_id = u, params_slug = s, body = empty_body\<rparr>"

text \<open>
  A draft is created in the empty store and then published by its author with an update.
\<close>

definition initial_store :: store where
  "initial_store = \<lparr>blogs = [], nextId = 0\<rparr>"

definition create_draft :: auth_request where
  "create_draft =
     \<lparr>user_id = Some ''u1'', params_slug = [],
      body = \<lparr>body_title = Some ''Hello'', body_content = Some ''Text'', body_imageUrl = None,
              body_tags = None, body_isPublished = Some (JBool False)\<rparr>\<rparr>"

definition store_with_draft :: store where
  "store_with_draft = snd (postBlog (\<lambda>t. t) 100 initial_store create_draft)"

definition publish_draft :: auth_request where
  "publish_draft =
     \<lparr>user_id = Some ''u1'', params_slug = ''Hello'',
      body = \<lparr>body_title = None, body_content = None, body_imageUrl = None,
              body_tags = None, body_isPublished = Some (JBool True)\<rparr>\<rparr>"


definition store_published_later :: store where
  "store_published_later = snd (updateBlogController (\<lambda>t. t) 200 store_with_draft publish_draft)"

text \<open>
  An update of the draft by its author that carries nothing but an image, and the
  request for the first page of the public listing with the default limit.
\<close>

definition image_only :: auth_request where
  "image_only =
     \<lparr>user_id = Some ''u1'', params_slug = ''Hello'',
      body = \<lparr>body_title = None, body_content = None, body_imageUrl = Some ''pic.png'',
              body_tags = None, body_isPublished = None\<rparr>\<rparr>"

definition first_page :: list_request where
  "first_page = \<lparr>query_limit = None, query_cursor = None\<rparr>"

text \<open>
  A feed of three published articles, and the text of their dates.
\<close>

definition feed_example :: "blog list" where
  "feed_example =
     [new_BlogModel 0 100 ''A'' ''a'' None ''a'' ''u1'' [] True False (Some 100),
      new_BlogModel 1 200 ''B'' ''b'' None ''b'' ''u1'' [] True False (Some 200),
      new_BlogModel 2 300 ''C'' ''c'' None ''c'' ''u2'' [] True False (Some 300)]"


definition example_newDate :: "string \<Rightarrow> timestamp option" where
  "example_newDate s =
     (if s = ''1970-01-01T00:00:00.100Z'' then Some 100
      else if s = ''1970-01-01T00:00:00.200Z'' then Some 200
      else if s = ''1970-01-01T00:00:00.300Z'' then Some 300
      else None)"

definition page_of_two :: list_request where
  "page_of_two = \<lparr>query_limit = Some ''2'', query_cursor = None\<rparr>"




section \<open>The slug loop terminates\<close>

lemma digit_char_inj: "a < 10 \<Longrightarrow> b < 10 \<Longrightarrow> digit_char a = digit_char b \<Longrightarrow> a = b"
proof -
  assume a: "a < 10" and b: "b < 10" and e: "digit_char a = digit_char b"
  from e have "(of_char (digit_char a) :: nat) = of_char (digit_char b)" by simp
  then have "(48 + a) mod 256 = (48 + b) mod 256"
    by (simp add: digit_char_def)
  with a b show "a = b" by simp
qed

lemma show_nat_length: "10 \<le> n \<Longrightarrow> 2 \<le> length (show_nat n)"
proof -
  assume n: "10 \<le> n"
  have pos: "1 \<le> length (show_nat m)" for m
    by (subst show_nat.simps) simp
  from n have "show_nat n = show_nat (n div 10) @ [digit_char (n mod 10)]"
    by (subst show_nat.simps) simp
  with pos [of "n div 10"] show ?thesis by simp
qed

lemma show_nat_inj: "show_nat n = show_nat m \<Longrightarrow> n = m"
proof (induction n arbitrary: m rule: show_nat.induct)
  case (1 n)
  show ?case
  proof (cases "n < 10")
    case small: True
    show ?thesis
    proof (cases "m < 10")
      case True
      with small "1.prems" show ?thesis
        by (simp add: show_nat.simps [of n] show_nat.simps [of m] digit_char_inj)
    next
      case False
      then have "2 \<le> length (show_nat m)" by (simp add: show_nat_length)
      moreover from small have "length (show_nat n) = 1" by (simp add: show_nat.simps [of n])
      ultimately show ?thesis using "1.prems" by simp
    qed
  next
    case big: False
    show ?thesis
    proof (cases "m < 10")
      case True
      then have "length (show_nat m) = 1" by (simp add: show_nat.simps [of m])
      moreover from big have "2 \<le> length (show_nat n)" by (simp add: show_nat_length)
      ultimately show ?thesis using "1.prems" by simp
    next
      case False
      from big have en: "show_nat n = show_nat (n div 10) @ [digit_char (n mod 10)]"
        by (subst show_nat.simps) simp
      from False have em: "show_nat m = show_nat (m div 10) @ [digit_char (m mod 10)]"
        by (subst show_nat.simps) simp
      from en em "1.prems" have p: "show_nat (n div 10) = show_nat (m div 10)"
        and d: "digit_char (n mod 10) = digit_char (m mod 10)" by simp_all
      from "1.IH" [OF big p] have q: "n div 10 = m div 10" .
      from d have r: "n mod 10 = m mod 10" by (rule digit_char_inj [rotated 2]) simp_all
      have "n = 10 * (n div 10) + n mod 10" by simp
      also have "\<dots> = 10 * (m div 10) + m mod 10" using q r by simp
      also have "\<dots> = m" by simp
      finally show ?thesis .
    qed
  qed
qed

lemma suffixed_inj: "suffixed c j = suffixed c k \<Longrightarrow> j = k"
  by (simp add: suffixed_def show_nat_inj)

lemma findOne_slug_None: "findOne_slug bs s = None \<longleftrightarrow> s \<notin> slug ` set bs"
  by (auto simp: findOne_slug_def find_None_iff)

lemma finite_suffixes: "finite {j. k \<le> j \<and> suffixed c j \<in> slug ` set bs}"
proof -
  have "finite ((suffixed c) -` (slug ` set bs))"
    by (rule finite_vimageI) (auto intro: injI suffixed_inj)
  then show ?thesis
    by (rule rev_finite_subset) auto
qed

termination slug_loop
proof (relation "measure (\<lambda>(bs, c, s, k).
          card {j. k \<le> j \<and> suffixed c j \<in> slug ` set bs}
          + (if s \<in> slug ` set bs then 1 else 0))", goal_cases)
  case 1
  show ?case by simp
next
  case (2 bs c s k)
  then have taken: "s \<in> slug ` set bs" by (simp add: findOne_slug_None)
  let ?A = "{j. k \<le> j \<and> suffixed c j \<in> slug ` set bs}"
  let ?B = "{j. k + 1 \<le> j \<and> suffixed c j \<in> slug ` set bs}"
  have fin: "finite ?B" by (rule finite_suffixes)
  show ?case
  proof (cases "suffixed c k \<in> slug ` set bs")
    case True
    then have "?A = insert k ?B" by (auto simp: le_less Suc_le_eq)
    moreover have "k \<notin> ?B" by simp
    ultimately have "card ?A = Suc (card ?B)" using fin by simp
    with True taken show ?thesis by simp
  next
    case False
    then have "?A = ?B" by (auto simp: le_less Suc_le_eq)
    with False taken show ?thesis by simp
  qed
qed

declare slug_loop.simps [simp del]

section \<open>Slug resolution\<close>

lemma slug_loop_free: "s \<notin> slug ` set bs \<Longrightarrow> slug_loop bs c s n = s"
  by (subst slug_loop.simps) (simp add: findOne_slug_None)

lemma slug_loop_taken:
  "s \<in> slug ` set bs \<Longrightarrow>
     \<exists>k\<ge>n. slug_loop bs c s n = suffixed c k \<and> suffixed c k \<notin> slug ` set bs
            \<and> (\<forall>j. n \<le> j \<and> j < k \<longrightarrow> suffixed c j \<in> slug ` set bs)"
proof (induction bs c s n rule: slug_loop.induct)
  case (1 bs c s n)
  from "1.prems" have step: "slug_loop bs c s n = slug_loop bs c (suffixed c n) (n + 1)"
    by (subst slug_loop.simps) (simp add: findOne_slug_None)
  show ?case
  proof (cases "suffixed c n \<in> slug ` set bs")
    case False
    then have "slug_loop bs c (suffixed c n) (n + 1) = suffixed c n"
      by (rule slug_loop_free)
    with step False show ?thesis by auto
  next
    case True
    from "1.prems" have "findOne_slug bs s \<noteq> None" by (simp add: findOne_slug_None)
    from "1.IH" [OF this True]
    obtain k where k: "n + 1 \<le> k" "slug_loop bs c (suffixed c n) (n + 1) = suffixed c k"
      "suffixed c k \<notin> slug ` set bs"
      "\<forall>j. n + 1 \<le> j \<and> j < k \<longrightarrow> suffixed c j \<in> slug ` set bs"
      by blast
    have "\<forall>j. n \<le> j \<and> j < k \<longrightarrow> suffixed c j \<in> slug ` set bs"
    proof (intro allI impI)
      fix j assume "n \<le> j \<and> j < k"
      then have "j = n \<or> (n + 1 \<le> j \<and> j < k)" by arith
      with True k(4) show "suffixed c j \<in> slug ` set bs" by blast
    qed
    with k step show ?thesis
      by (intro exI [of _ k]) simp
  qed
qed

text \<open>
  C6. For every candidate \<open>c\<close>, the empty string included, and every collection \<open>bs\<close>,
  the resolution returns \<open>c\<close> when no document has that slug; otherwise it returns
  \<open>c-k\<close> for the least \<open>k \<ge> 1\<close> whose \<open>c-k\<close> is free, every \<open>c-j\<close> with
  \<open>1 \<le> j < k\<close> being taken. In both cases no document has the slug returned.
\<close>

theorem resolve_slug_first_free:
  "(c \<notin> slug ` set bs \<longrightarrow> resolve_slug bs c = c)
   \<and> (c \<in> slug ` set bs \<longrightarrow>
        (\<exists>k\<ge>1. resolve_slug bs c = suffixed c k \<and> suffixed c k \<notin> slug ` set bs
               \<and> (\<forall>j. 1 \<le> j \<and> j < k \<longrightarrow> suffixed c j \<in> slug ` set bs)))
   \<and> resolve_slug bs c \<notin> slug ` set bs"
proof -
  have a: "c \<notin> slug ` set bs \<longrightarrow> resolve_slug bs c = c"
    by (simp add: resolve_slug_def slug_loop_free)
  have b: "c \<in> slug ` set bs \<longrightarrow>
        (\<exists>k\<ge>1. resolve_slug bs c = suffixed c k \<and> suffixed c k \<notin> slug ` set bs
               \<and> (\<forall>j. 1 \<le> j \<and> j < k \<longrightarrow> suffixed c j \<in> slug ` set bs))"
    unfolding resolve_slug_def using slug_loop_taken [of c bs 1 c] by blast
  have "resolve_slug bs c \<notin> slug ` set bs"
  proof (cases "c \<in> slug ` set bs")
    case True
    with b obtain k where "resolve_slug bs c = suffixed c k" "suffixed c k \<notin> slug ` set bs"
      by blast
    then show ?thesis by simp
  next
    case False
    with a show ?thesis by simp
  qed
  with a b show ?thesis by blast
qed

theorem resolve_slug_first_free_witness:
  "'''' \<in> slug ` set taken_example \<and> resolve_slug taken_example '''' = ''-2''
   \<and> (\<exists>k\<ge>1. resolve_slug taken_example '''' = suffixed '''' k
          \<and> suffixed '''' k \<notin> slug ` set taken_example
          \<and> (\<forall>j. 1 \<le> j \<and> j < k \<longrightarrow> suffixed '''' j \<in> slug ` set taken_example))
   \<and> ''fresh'' \<notin> slug ` set taken_example \<and> resolve_slug taken_example ''fresh'' = ''fresh''"
proof -
  have t: "'''' \<in> slug ` set taken_example"
    by (simp add: taken_example_def new_BlogModel_def)
  have f: "''fresh'' \<notin> slug ` set taken_example"
    by (simp add: taken_example_def new_BlogModel_def)
  have v: "resolve_slug taken_example '''' = ''-2''"
    by code_simp
  from t f v resolve_slug_first_free [of "''''" taken_example]
    resolve_slug_first_free [of "''fresh''" taken_example]
  show ?thesis by blast
qed

section \<open>Ownership and the order of the checks\<close>

lemma truthy_str: "truthy u \<Longrightarrow> (u = Some a) = (str u = a)"
  by (cases u) (simp_all add: truthy_def str_def)

text \<open>
  C7. Let the request name a slug under which the store finds the article \<open>A\<close>. Update and
  delete answer 200 exactly when the acting identity is present and equal, as a string, to
  the author of \<open>A\<close>. A present but different identity gets 403 and the store is left as it
  was; an absent identity is turned away (400) and the store is left as it was.
\<close>

theorem ownership_guard:
  assumes "params_slug req \<noteq> []"
    and "findOne_slug (blogs st) (params_slug req) = Some A"
  shows "(status (fst (updateBlogController generateSlug now st req)) = 200
            \<longleftrightarrow> truthy (user_id req) \<and> user_id req = Some (author A))
       \<and> (status (fst (deleteBlogController st req)) = 200
            \<longleftrightarrow> truthy (user_id req) \<and> user_id req = Some (author A))
       \<and> (truthy (user_id req) \<and> user_id req \<noteq> Some (author A) \<longrightarrow>
            updateBlogController generateSlug now st req = ((403, Message ''Unauthorized''), st)
            \<and> deleteBlogController st req = ((403, Message ''Unauthorized''), st))
       \<and> (\<not> truthy (user_id req) \<longrightarrow>
            updateBlogController generateSlug now st req
              = ((400, Message ''Slug and user are required''), st)
            \<and> deleteBlogController st req = ((400, Message ''Slug and user are required''), st))"
proof (cases "truthy (user_id req)")
  case False
  then show ?thesis
    by (simp add: updateBlogController_def deleteBlogController_def status_def)
next
  case True
  note eq = truthy_str [OF True, of "author A"]
  show ?thesis
  proof (cases "author A = str (user_id req)")
    case same: True
    with True assms eq show ?thesis
      by (simp add: updateBlogController_def deleteBlogController_def status_def Let_def)
  next
    case False
    with True assms eq show ?thesis
      by (auto simp: updateBlogController_def deleteBlogController_def status_def)
  qed
qed

theorem ownership_guard_witness:
  "status (fst (updateBlogController (\<lambda>t. t) 200 example_store (request_by (Some ''u1'') ''hello''))) = 200
   \<and> status (fst (deleteBlogController example_store (request_by (Some ''u1'') ''hello''))) = 200
   \<and> updateBlogController (\<lambda>t. t) 200 example_store (request_by (Some ''u2'') ''hello'')
       = ((403, Message ''Unauthorized''), example_store)
   \<and> deleteBlogController example_store (request_by (Some ''u2'') ''hello'')
       = ((403, Message ''Unauthorized''), example_store)
   \<and> deleteBlogController example_store (request_by None ''hello'')
       = ((400, Message ''Slug and user are required''), example_store)"
proof -
  have s: "params_slug (request_by u ''hello'') \<noteq> []" for u
    by (simp add: request_by_def)
  have f: "findOne_slug (blogs example_store) (params_slug (request_by u ''hello'')) = Some example_blog" for u
    by (simp add: request_by_def example_store_def example_blog_def findOne_slug_def new_BlogModel_def)
  have a: "author example_blog = ''u1''"
    by (simp add: example_blog_def new_BlogModel_def)
  have u: "user_id (request_by u ''hello'') = u" for u
    by (simp add: request_by_def)
  note g = ownership_guard [where st = example_store and A = example_blog
      and generateSlug = "\<lambda>t. t" and now = 200, OF s f]
  from g [of "Some ''u1''"] g [of "Some ''u2''"] g [of None]
  show ?thesis
    by (simp add: a u truthy_def)
qed

text \<open>
  C10. In update and in delete the lookup comes before the ownership check: a request
  with an identity and a slug that no article has gets 404, whatever the identity; and
  where the answer is 403 the slug is that of an article in the store.
\<close>

theorem existence_before_ownership:
  "(truthy (user_id req) \<and> params_slug req \<noteq> []
      \<and> findOne_slug (blogs st) (params_slug req) = None \<longrightarrow>
        updateBlogController generateSlug now st req = ((404, Message ''Blog not found''), st)
        \<and> deleteBlogController st req = ((404, Message ''Blog not found''), st))
   \<and> (status (fst (updateBlogController generateSlug now st req)) = 403 \<longrightarrow>
        params_slug req \<in> slug ` set (blogs st))
   \<and> (status (fst (deleteBlogController st req)) = 403 \<longrightarrow>
        params_slug req \<in> slug ` set (blogs st))"
proof -
  have a: "truthy (user_id req) \<and> params_slug req \<noteq> []
      \<and> findOne_slug (blogs st) (params_slug req) = None \<longrightarrow>
        updateBlogController generateSlug now st req = ((404, Message ''Blog not found''), st)
        \<and> deleteBlogController st req = ((404, Message ''Blog not found''), st)"
    by (simp add: updateBlogController_def deleteBlogController_def)
  have b: "findOne_slug (blogs st) (params_slug req) \<noteq> None"
    if "status (fst (updateBlogController generateSlug now st req)) = 403"
    using that
    by (auto simp: updateBlogController_def status_def Let_def split: if_splits option.splits)
  have c: "findOne_slug (blogs st) (params_slug req) \<noteq> None"
    if "status (fst (deleteBlogController st req)) = 403"
    using that
    by (auto simp: deleteBlogController_def status_def split: if_splits option.splits)
  from a b c show ?thesis
    unfolding findOne_slug_None by blast
qed

theorem existence_before_ownership_witness:
  "updateBlogController (\<lambda>t. t) 200 example_store (request_by (Some ''u1'') ''missing'')
     = ((404, Message ''Blog not found''), example_store)
   \<and> deleteBlogController example_store (request_by (Some ''u2'') ''missing'')
     = ((404, Message ''Blog not found''), example_store)
   \<and> status (fst (deleteBlogController example_store (request_by (Some ''u2'') ''hello''))) = 403
   \<and> ''hello'' \<in> slug ` set (blogs example_store)"
proof -
  have n: "findOne_slug (blogs example_store) (params_slug (request_by u ''missing'')) = None" for u
    by (simp add: request_by_def example_store_def example_blog_def findOne_slug_def new_BlogModel_def)
  have d: "status (fst (deleteBlogController example_store (request_by (Some ''u2'') ''hello''))) = 403"
    by (simp add: deleteBlogController_def request_by_def example_store_def example_blog_def
        findOne_slug_def new_BlogModel_def truthy_def str_def status_def)
  from n d existence_before_ownership [of "request_by (Some ''u1'') ''missing''" example_store "\<lambda>t. t" 200]
    existence_before_ownership [of "request_by (Some ''u2'') ''missing''" example_store "\<lambda>t. t" 200]
    existence_before_ownership [of "request_by (Some ''u2'') ''hello''" example_store "\<lambda>t. t" 200]
  show ?thesis
    by (simp add: request_by_def truthy_def)
qed

section \<open>Listing the articles of one author\<close>

lemma sort_desc_Nil_iff: "sort_desc bs = [] \<longleftrightarrow> bs = []"
proof -
  have "length (sort_desc bs) = length bs"
    by (simp add: sort_desc_def)
  then show ?thesis by (metis length_0_conv)
qed

text \<open>
  C9. The listing of the articles of the acting identity answers 401 without an identity,
  404 when that identity is the author of no article, and 200 with the articles
  otherwise. The public listing, asked with a positive limit (the default is one) and a
  cursor it can read or none, answers 200 with the empty page when no article matches.
\<close>

theorem allBlogsOfUser_answers:
  "(\<not> truthy (user_id req) \<longrightarrow> allBlogsOfUser bs req = (401, Message ''Not authorized''))
   \<and> (truthy (user_id req) \<and> (\<forall>b\<in>set bs. author b \<noteq> str (user_id req)) \<longrightarrow>
        allBlogsOfUser bs req = (404, Message ''No blogs found for this user''))
   \<and> (truthy (user_id req) \<and> (\<exists>b\<in>set bs. author b = str (user_id req)) \<longrightarrow>
        allBlogsOfUser bs req
          = (200, BlogsPayload ''Fetching successfull''
               (map select_view (sort_desc (filter (\<lambda>b. author b = str (user_id req)) bs)))))
   \<and> (0 < parse_limit (query_limit lreq)
        \<and> \<not> (truthy (query_cursor lreq) \<and> newDate (str (query_cursor lreq)) = None)
        \<and> run_query (if truthy (query_cursor lreq) then newDate (str (query_cursor lreq)) else None) bs = []
        \<longrightarrow> getAllBlogs newDate bs lreq = (200, PagePayload ''Blogs fetched successfully'' [] None))"
proof -
  have none: "filter (\<lambda>b. author b = a) bs = []" if "\<forall>b\<in>set bs. author b \<noteq> a" for a
    using that by (simp add: filter_empty_conv)
  have some: "filter (\<lambda>b. author b = a) bs \<noteq> []" if "\<exists>b\<in>set bs. author b = a" for a
    using that by (simp add: filter_empty_conv)
  have a: "\<not> truthy (user_id req) \<longrightarrow> allBlogsOfUser bs req = (401, Message ''Not authorized'')"
    by (simp add: allBlogsOfUser_def)
  have b: "truthy (user_id req) \<and> (\<forall>b\<in>set bs. author b \<noteq> str (user_id req)) \<longrightarrow>
        allBlogsOfUser bs req = (404, Message ''No blogs found for this user'')"
    by (simp add: allBlogsOfUser_def Let_def none sort_desc_Nil_iff)
  have c: "truthy (user_id req) \<and> (\<exists>b\<in>set bs. author b = str (user_id req)) \<longrightarrow>
        allBlogsOfUser bs req
          = (200, BlogsPayload ''Fetching successfull''
               (map select_view (sort_desc (filter (\<lambda>b. author b = str (user_id req)) bs))))"
    using some [of "str (user_id req)"]
    by (simp add: allBlogsOfUser_def Let_def sort_desc_Nil_iff)
  have d: "0 < parse_limit (query_limit lreq)
        \<and> \<not> (truthy (query_cursor lreq) \<and> newDate (str (query_cursor lreq)) = None)
        \<and> run_query (if truthy (query_cursor lreq) then newDate (str (query_cursor lreq)) else None) bs = []
        \<longrightarrow> getAllBlogs newDate bs lreq = (200, PagePayload ''Blogs fetched successfully'' [] None)"
    by (simp add: getAllBlogs_def Let_def sort_desc_def mongo_limit_def)
  from a b c d show ?thesis by blast
qed

theorem allBlogsOfUser_answers_witness:
  "allBlogsOfUser (blogs example_store) (request_by None []) = (401, Message ''Not authorized'')
   \<and> allBlogsOfUser (blogs example_store) (request_by (Some ''u2'') [])
       = (404, Message ''No blogs found for this user'')
   \<and> allBlogsOfUser (blogs example_store) (request_by (Some ''u1'') [])
       = (200, BlogsPayload ''Fetching successfull'' [select_view example_blog])
   \<and> getAllBlogs (\<lambda>s. None) [] \<lparr>query_limit = None, query_cursor = None\<rparr>
       = (200, PagePayload ''Blogs fetched successfully'' [] None)"
proof -
  have bs: "blogs example_store = [example_blog]"
    by (simp add: example_store_def)
  have au: "author example_blog = ''u1''"
    by (simp add: example_blog_def new_BlogModel_def)
  have srt: "sort_desc [example_blog] = [example_blog]"
    by (simp add: sort_desc_def)
  have lim: "parse_limit None = 10"
    by (simp add: parse_limit_def)
  note t = allBlogsOfUser_answers [where bs = "blogs example_store"]
  from t [of "request_by None []"] t [of "request_by (Some ''u2'') []"]
    t [of "request_by (Some ''u1'') []"]
    allBlogsOfUser_answers [where bs = "[]" and newDate = "\<lambda>s. None"
      and lreq = "\<lparr>query_limit = None, query_cursor = None\<rparr>"]
  show ?thesis
    by (simp add: bs au srt lim request_by_def truthy_def str_def run_query_def)
qed

section \<open>Draft and published\<close>


lemma set_deleteOne_id: "set (deleteOne_id i bs) \<subseteq> set bs"
  by (induction bs) auto








lemma store_with_draft_eq:
  "store_with_draft =
     \<lparr>blogs = [new_BlogModel 0 100 ''Hello'' ''Text'' None ''Hello'' ''u1'' [] False True None],
      nextId = 1\<rparr>"
  by (simp add: store_with_draft_def postBlog_def initial_store_def create_draft_def Let_def
      truthy_def str_def tags_or_default_def isPublished_or_default_def format_tags_def
      js_truthy_def castBoolean_def resolve_slug_def slug_loop.simps [of "[]"] findOne_slug_def)

lemma reachable_store_with_draft: "reachable (\<lambda>t. t) store_with_draft"
  unfolding store_with_draft_def initial_store_def
  by (intro reachable_post reachable_init)

lemma cast_agrees_examples: "cast_agrees (body create_draft)" "cast_agrees (body publish_draft)"
  by (simp_all add: cast_agrees_def create_draft_def publish_draft_def isPublished_or_default_def
      js_truthy_def castBoolean_def)




section \<open>The date of publication\<close>

lemma map_blog_id_save_doc: "map blog_id (save_doc d bs) = map blog_id bs"
  by (induction bs) auto

lemma distinct_deleteOne_id:
  "distinct (map blog_id bs) \<Longrightarrow> distinct (map blog_id (deleteOne_id i bs))"
proof (induction bs)
  case Nil
  show ?case by simp
next
  case (Cons b bs)
  from set_deleteOne_id [of i bs]
  have "blog_id ` set (deleteOne_id i bs) \<subseteq> blog_id ` set bs" by blast
  with Cons show ?case by auto
qed

lemma postBlog_ids: "ids_fresh st \<Longrightarrow> ids_fresh (snd (postBlog generateSlug now st req))"
  by (auto simp: ids_fresh_def postBlog_def Let_def new_BlogModel_def less_Suc_eq)

lemma updateBlogController_ids:
  "ids_fresh st \<Longrightarrow> ids_fresh (snd (updateBlogController generateSlug now st req))"
proof -
  assume a: "ids_fresh st"
  have "ids_fresh (st\<lparr>blogs := save_doc d (blogs st)\<rparr>)" for d
  proof -
    have "blog_id b < nextId st" if "b \<in> set (save_doc d (blogs st))" for b
    proof -
      from that have "blog_id b \<in> set (map blog_id (save_doc d (blogs st)))" by simp
      then have "blog_id b \<in> blog_id ` set (blogs st)"
        by (simp add: map_blog_id_save_doc)
      with a show ?thesis by (auto simp: ids_fresh_def)
    qed
    with a show ?thesis
      by (simp add: ids_fresh_def map_blog_id_save_doc)
  qed
  with a show ?thesis
    by (simp add: updateBlogController_def Let_def split: option.splits)
qed

lemma deleteBlogController_ids: "ids_fresh st \<Longrightarrow> ids_fresh (snd (deleteBlogController st req))"
proof -
  assume a: "ids_fresh st"
  have "ids_fresh (st\<lparr>blogs := deleteOne_id i (blogs st)\<rparr>)" for i
    using a set_deleteOne_id [of i "blogs st"]
    by (auto simp: ids_fresh_def distinct_deleteOne_id)
  with a show ?thesis
    by (simp add: deleteBlogController_def split: option.splits)
qed

lemma reachable_ids: "reachable generateSlug st \<Longrightarrow> ids_fresh st"
proof (induction rule: reachable.induct)
  case reachable_init
  show ?case by (simp add: ids_fresh_def)
next
  case (reachable_post st now req)
  then show ?case by (intro postBlog_ids)
next
  case (reachable_update st now req)
  then show ?case by (intro updateBlogController_ids)
next
  case (reachable_delete st req)
  then show ?case by (intro deleteBlogController_ids)
qed

lemma save_doc_publishedAt:
  assumes "e \<in> set bs" and "distinct (map blog_id bs)"
    and "blog_id d = blog_id e" and "publishedAt d = publishedAt e"
  shows "map publishedAt (save_doc d bs) = map publishedAt bs"
  using assms(1,2)
proof (induction bs)
  case Nil
  then show ?case by simp
next
  case (Cons b bs)
  show ?case
  proof (cases "blog_id b = blog_id d")
    case True
    have "e = b"
    proof (rule ccontr)
      assume "e \<noteq> b"
      with Cons.prems(1) have "e \<in> set bs" by simp
      then have "blog_id e \<in> blog_id ` set bs" by blast
      with True assms(3) Cons.prems(2) show False by simp
    qed
    with True assms(4) show ?thesis by simp
  next
    case False
    with assms(3) Cons.prems(1) have "e \<in> set bs" by auto
    with Cons False show ?thesis by simp
  qed
qed

lemma apply_patch_keeps:
  "blog_id (apply_patch generateSlug now bd b) = blog_id b"
  "publishedAt (apply_patch generateSlug now bd b) = publishedAt b"
  "slug (apply_patch generateSlug now bd b) = slug b"
  "author (apply_patch generateSlug now bd b) = author b"
  "createdAt (apply_patch generateSlug now bd b) = createdAt b"
  by (simp_all add: apply_patch_def Let_def)

lemma findOne_slug_in: "findOne_slug bs s = Some e \<Longrightarrow> e \<in> set bs"
  by (auto simp: findOne_slug_def find_Some_iff)

text \<open>
  C1, as the code has it. \<open>publishedAt\<close> is written once, when the article is created:
  the time of creation when the \<open>isPublished\<close> of the request is truthy (an absent one
  counts as true), and no date otherwise. For a request that agrees with the cast, every
  JSON boolean among them, that is the time of creation for an article created published
  and no date for one created as a draft. No update writes it: whatever the request and
  its answer, every article of a reachable store has after the update the \<open>publishedAt\<close>
  it had before.
\<close>

theorem publishedAt_written_at_creation_only:
  assumes "reachable generateSlug st"
  shows "map publishedAt (blogs (snd (updateBlogController generateSlug now st req)))
           = map publishedAt (blogs st)
       \<and> (blogs (snd (postBlog generateSlug now' st req')) = blogs st
          \<or> (\<exists>b. blogs (snd (postBlog generateSlug now' st req')) = blogs st @ [b]
                 \<and> publishedAt b = (if js_truthy (isPublished_or_default (body req'))
                                     then Some now' else None)
                 \<and> isPublished b = castBoolean (isPublished_or_default (body req'))))
       \<and> (cast_agrees (body req') \<longrightarrow>
            (blogs (snd (postBlog generateSlug now' st req')) = blogs st
             \<or> (\<exists>b. blogs (snd (postBlog generateSlug now' st req')) = blogs st @ [b]
                    \<and> publishedAt b = (if isPublished b then Some now' else None))))"
proof -
  from assms have ids: "distinct (map blog_id (blogs st))"
    using reachable_ids by (simp add: ids_fresh_def)
  have upd: "map publishedAt (blogs (snd (updateBlogController generateSlug now st req)))
           = map publishedAt (blogs st)"
  proof (cases "findOne_slug (blogs st) (params_slug req)")
    case None
    then show ?thesis by (simp add: updateBlogController_def)
  next
    case (Some e)
    then have "e \<in> set (blogs st)" by (rule findOne_slug_in)
    then have "map publishedAt (save_doc (apply_patch generateSlug now (body req) e) (blogs st))
                 = map publishedAt (blogs st)"
      using ids by (rule save_doc_publishedAt) (simp_all add: apply_patch_keeps)
    with Some show ?thesis by (simp add: updateBlogController_def Let_def)
  qed
  have crt: "blogs (snd (postBlog generateSlug now' st req')) = blogs st
          \<or> (\<exists>b. blogs (snd (postBlog generateSlug now' st req')) = blogs st @ [b]
                 \<and> publishedAt b = (if js_truthy (isPublished_or_default (body req'))
                                     then Some now' else None)
                 \<and> isPublished b = castBoolean (isPublished_or_default (body req')))"
    by (simp add: postBlog_def Let_def new_BlogModel_def)
  have agr: "blogs (snd (postBlog generateSlug now' st req')) = blogs st
             \<or> (\<exists>b. blogs (snd (postBlog generateSlug now' st req')) = blogs st @ [b]
                    \<and> publishedAt b = (if isPublished b then Some now' else None))"
    if "cast_agrees (body req')"
    using that by (simp add: postBlog_def Let_def new_BlogModel_def cast_agrees_def)
  from upd crt agr show ?thesis by blast
qed

theorem publishedAt_written_at_creation_only_witness:
  "reachable (\<lambda>t. t) store_with_draft
   \<and> map publishedAt (blogs (snd (updateBlogController (\<lambda>t. t) 200 store_with_draft publish_draft)))
       = [None]
   \<and> (\<exists>b. blogs (snd (postBlog (\<lambda>t. t) 300 store_with_draft create_draft))
            = blogs store_with_draft @ [b]
          \<and> publishedAt b = (if isPublished b then Some 300 else None))"
proof -
  have p: "map publishedAt (blogs store_with_draft) = [None]"
    by (simp add: store_with_draft_eq new_BlogModel_def)
  have n: "blogs (snd (postBlog (\<lambda>t. t) 300 store_with_draft create_draft)) \<noteq> blogs store_with_draft"
    by (simp add: postBlog_def create_draft_def truthy_def Let_def)
  from reachable_store_with_draft p n cast_agrees_examples(1)
    publishedAt_written_at_creation_only [OF reachable_store_with_draft,
      of 200 publish_draft 300 create_draft]
  show ?thesis by simp
qed

text \<open>
  C1, as the claim has it, fails: the draft published by its author with an update is a
  published article of a reachable store, and it has no \<open>publishedAt\<close>.
\<close>

theorem published_without_publishedAt:
  "reachable (\<lambda>t. t) store_published_later
   \<and> map isPublished (blogs store_published_later) = [True]
   \<and> map publishedAt (blogs store_published_later) = [None]"
proof -
  have r: "reachable (\<lambda>t. t) store_published_later"
    unfolding store_published_later_def
    by (intro reachable_update reachable_store_with_draft)
  have v: "blogs store_published_later
             = [(new_BlogModel 0 100 ''Hello'' ''Text'' None ''Hello'' ''u1'' [] True False None)
                  \<lparr>updatedAt := 200\<rparr>]"
    by (simp add: store_published_later_def store_with_draft_eq updateBlogController_def
        publish_draft_def truthy_def str_def findOne_slug_def new_BlogModel_def Let_def
        apply_patch_def tags_or_default_def isPublished_or_default_def js_truthy_def castBoolean_def)
  from r v show ?thesis by (simp add: new_BlogModel_def)
qed

section \<open>Partial update\<close>

text \<open>
  What \<^verbatim>\<open>updateBlogController\<close> writes into the article it found: a field of the patch
  that is absent or falsy (the empty string, the empty list of tags) leaves the stored
  field as it is, \<open>updatedAt\<close> is the time of the update, and the slug, the author, the
  identifier and both dates of creation and publication are never written.
\<close>

lemma apply_patch_fields:
  "title (apply_patch generateSlug now bd b)
     = (if truthy (body_title bd) then str (body_title bd) else title b)"
  "content (apply_patch generateSlug now bd b)
     = (if truthy (body_content bd) then str (body_content bd) else content b)"
  "imageUrl (apply_patch generateSlug now bd b)
     = (if truthy (body_imageUrl bd) then body_imageUrl bd else imageUrl b)"
  "tags (apply_patch generateSlug now bd b)
     = (if tags_or_default bd = [] then tags b else format_tags generateSlug (tags_or_default bd))"
  "updatedAt (apply_patch generateSlug now bd b) = now"
  by (simp_all add: apply_patch_def Let_def)

text \<open>
  \<open>isPublished\<close> is written by every update: the cast of the value of the patch, and
  \<open>True\<close> when the patch has none.
\<close>

lemma apply_patch_isPublished:
  "isPublished (apply_patch generateSlug now bd b)
     = (case body_isPublished bd of None \<Rightarrow> True | Some v \<Rightarrow> castBoolean v)"
  "isDraft (apply_patch generateSlug now bd b)
     = (case body_isPublished bd of None \<Rightarrow> False | Some v \<Rightarrow> \<not> js_truthy v)"
  by (simp_all add: apply_patch_def Let_def isPublished_or_default_def js_truthy_def
      castBoolean_def split: option.splits)

text \<open>
  C2 at an update of the draft that carries only \<open>imageUrl\<close>: the title, the content, the
  tags and the slug stay, \<open>updatedAt\<close> moves to the time of the update, and the draft
  comes out published, \<open>isPublished\<close> and \<open>isDraft\<close> both changed.
\<close>

theorem update_imageUrl_only_publishes_draft:
  "blogs store_with_draft
     = [new_BlogModel 0 100 ''Hello'' ''Text'' None ''Hello'' ''u1'' [] False True None]
   \<and> updateBlogController (\<lambda>t. t) 200 store_with_draft image_only
     = ((200, BlogPayload ''Blog updated successfully''
           ((new_BlogModel 0 100 ''Hello'' ''Text'' (Some ''pic.png'') ''Hello'' ''u1'' []
               True False None)\<lparr>updatedAt := 200\<rparr>)),
        \<lparr>blogs = [(new_BlogModel 0 100 ''Hello'' ''Text'' (Some ''pic.png'') ''Hello'' ''u1'' []
                     True False None)\<lparr>updatedAt := 200\<rparr>],
         nextId = 1\<rparr>)"
  by (simp add: store_with_draft_eq updateBlogController_def image_only_def truthy_def str_def
      findOne_slug_def new_BlogModel_def Let_def apply_patch_def tags_or_default_def
      isPublished_or_default_def js_truthy_def castBoolean_def)

section \<open>One page of the public listing\<close>

lemma set_sort_desc: "set (sort_desc bs) = set bs"
  by (simp add: sort_desc_def)

lemma mset_sort_desc: "mset (sort_desc bs) = mset bs"
  by (simp add: sort_desc_def)


lemma sorted_sort_desc: "sorted_wrt (\<lambda>a b. publishedAt b \<le> publishedAt a) (sort_desc bs)"
proof -
  have "sorted (map publishedAt (sort_key publishedAt (rev bs)))"
    by (rule sorted_sort_key)
  then have "sorted_wrt (\<lambda>a b. publishedAt a \<le> publishedAt b) (sort_key publishedAt (rev bs))"
    by (simp add: sorted_map)
  then show ?thesis
    by (simp add: sort_desc_def sorted_wrt_rev)
qed

lemma publishedAt_lt_iff: "publishedAt_lt c b \<longleftrightarrow> (\<exists>t. publishedAt b = Some t \<and> t < c)"
  by (simp add: publishedAt_lt_def split: option.splits)

lemma set_mongo_limit: "set (mongo_limit n xs) \<subseteq> set xs"
  by (auto simp: mongo_limit_def dest: in_set_takeD)

lemma set_run_query:
  "b \<in> set (run_query q bs) \<Longrightarrow> b \<in> set bs \<and> (\<forall>c. q = Some c \<longrightarrow> publishedAt_lt c b)"
  by (cases q) (simp_all add: run_query_def)

lemma getAllBlogs_shape:
  assumes "\<not> (truthy (query_cursor req) \<and> newDate (str (query_cursor req)) = None)"
    and "fetched = map select_view
           (mongo_limit (parse_limit (query_limit req) + 1)
              (sort_desc (run_query (if truthy (query_cursor req)
                                     then newDate (str (query_cursor req)) else None) bs)))"
  shows "getAllBlogs newDate bs req =
      (if parse_limit (query_limit req) < int (length fetched)
       then (case butlast fetched of
               [] \<Rightarrow> (500, Message ''Internal server error'')
             | _ # _ \<Rightarrow> (200, PagePayload ''Blogs fetched successfully'' (butlast fetched)
                          (view_publishedAt (last (butlast fetched)))))
       else (200, PagePayload ''Blogs fetched successfully'' fetched None))"
proof (cases "truthy (query_cursor req)")
  case True
  with assms(1) obtain c where "newDate (str (query_cursor req)) = Some c" by auto
  with True show ?thesis
    unfolding assms(2) by (simp add: getAllBlogs_def Let_def cong: list.case_cong)
next
  case False
  then show ?thesis
    unfolding assms(2) by (simp add: getAllBlogs_def Let_def cong: list.case_cong)
qed

lemma getAllBlogs_readable:
  assumes "getAllBlogs newDate bs req = (code, PagePayload m items next)"
  shows "\<not> (truthy (query_cursor req) \<and> newDate (str (query_cursor req)) = None)"
proof
  assume "truthy (query_cursor req) \<and> newDate (str (query_cursor req)) = None"
  then have "getAllBlogs newDate bs req = (500, Message ''Internal server error'')"
    by (simp add: getAllBlogs_def Let_def)
  with assms show False by simp
qed

text \<open>
  C3, as the code has it. Every item of a page is the list view of an article of the
  store, and under a cursor of one that has a date earlier than the cursor. Whether the
  article is published plays no part.
\<close>

theorem getAllBlogs_items_from_store:
  assumes "getAllBlogs newDate bs req = (code, PagePayload m items next)"
  shows "\<forall>v\<in>set items. \<exists>b\<in>set bs. v = select_view b
           \<and> (truthy (query_cursor req) \<longrightarrow>
                (\<exists>c t. newDate (str (query_cursor req)) = Some c
                       \<and> publishedAt b = Some t \<and> t < c))"
proof
  fix v assume v: "v \<in> set items"
  define q where "q = (if truthy (query_cursor req) then newDate (str (query_cursor req)) else None)"
  define docs where "docs = mongo_limit (parse_limit (query_limit req) + 1) (sort_desc (run_query q bs))"
  define fetched where "fetched = map select_view docs"
  note ok = getAllBlogs_readable [OF assms]
  have shape: "getAllBlogs newDate bs req =
      (if parse_limit (query_limit req) < int (length fetched)
       then (case butlast fetched of
               [] \<Rightarrow> (500, Message ''Internal server error'')
             | _ # _ \<Rightarrow> (200, PagePayload ''Blogs fetched successfully'' (butlast fetched)
                          (view_publishedAt (last (butlast fetched)))))
       else (200, PagePayload ''Blogs fetched successfully'' fetched None))"
    using ok by (rule getAllBlogs_shape) (simp add: fetched_def docs_def q_def)
  have eq:
    "(if parse_limit (query_limit req) < int (length fetched)
       then (case butlast fetched of
               [] \<Rightarrow> (500, Message ''Internal server error'')
             | _ # _ \<Rightarrow> (200, PagePayload ''Blogs fetched successfully'' (butlast fetched)
                          (view_publishedAt (last (butlast fetched)))))
       else (200, PagePayload ''Blogs fetched successfully'' fetched None))
     = (code, PagePayload m items next)"
    by (rule trans [OF shape [symmetric] assms])
  have "items = butlast fetched \<or> items = fetched"
  proof (cases "parse_limit (query_limit req) < int (length fetched)")
    case True
    with eq show ?thesis
      by (cases "butlast fetched") simp_all
  next
    case False
    with eq show ?thesis by simp
  qed
  with v have "v \<in> set fetched"
    by (auto dest: in_set_butlastD)
  then obtain b where b: "b \<in> set docs" "v = select_view b"
    by (auto simp: fetched_def)
  have "set docs \<subseteq> set (sort_desc (run_query q bs))"
    unfolding docs_def by (rule set_mongo_limit)
  with b(1) have "b \<in> set (sort_desc (run_query q bs))" ..
  then have "b \<in> set (run_query q bs)" by (simp add: set_sort_desc)
  then have "b \<in> set bs \<and> (\<forall>c. q = Some c \<longrightarrow> publishedAt_lt c b)"
    by (rule set_run_query)
  then have in_bs: "b \<in> set bs" and lt: "\<forall>c. q = Some c \<longrightarrow> publishedAt_lt c b"
    by simp_all
  have "\<exists>c t. newDate (str (query_cursor req)) = Some c \<and> publishedAt b = Some t \<and> t < c"
    if t: "truthy (query_cursor req)"
  proof -
    from ok t obtain c where c: "newDate (str (query_cursor req)) = Some c" by auto
    with t lt have "publishedAt_lt c b" by (simp add: q_def)
    with c show ?thesis by (simp add: publishedAt_lt_iff)
  qed
  with in_bs b(2)
  show "\<exists>b\<in>set bs. v = select_view b
           \<and> (truthy (query_cursor req) \<longrightarrow>
                (\<exists>c t. newDate (str (query_cursor req)) = Some c
                       \<and> publishedAt b = Some t \<and> t < c))"
    by blast
qed

lemma parse_limit_None: "parse_limit None = 10"
  by (simp add: parse_limit_def)

lemma getAllBlogs_store_with_draft:
  "getAllBlogs (\<lambda>s. None) (blogs store_with_draft) first_page
     = (200, PagePayload ''Blogs fetched successfully''
          [\<lparr>view_id = 0, view_title = ''Hello'', view_author = ''u1'',
            view_publishedAt = None, view_slug = ''Hello''\<rparr>] None)"
  by (simp add: getAllBlogs_def first_page_def parse_limit_None truthy_def Let_def
      run_query_def sort_desc_def mongo_limit_def store_with_draft_eq select_view_def
      new_BlogModel_def)

theorem getAllBlogs_items_from_store_witness:
  "\<exists>b\<in>set (blogs store_with_draft).
     \<lparr>view_id = 0, view_title = ''Hello'', view_author = ''u1'',
      view_publishedAt = None, view_slug = ''Hello''\<rparr> = select_view b"
  using getAllBlogs_items_from_store [OF getAllBlogs_store_with_draft]
  by (simp add: first_page_def truthy_def)

text \<open>
  C3, as the claim has it, fails: the first page of the store that holds one draft shows
  the draft.
\<close>

theorem draft_in_public_feed:
  "map isPublished (blogs store_with_draft) = [False]
   \<and> getAllBlogs (\<lambda>s. None) (blogs store_with_draft) first_page
     = (200, PagePayload ''Blogs fetched successfully''
          [\<lparr>view_id = 0, view_title = ''Hello'', view_author = ''u1'',
            view_publishedAt = None, view_slug = ''Hello''\<rparr>] None)
   \<and> map select_view (blogs store_with_draft)
     = [\<lparr>view_id = 0, view_title = ''Hello'', view_author = ''u1'',
            view_publishedAt = None, view_slug = ''Hello''\<rparr>]"
  by (simp add: getAllBlogs_def first_page_def parse_limit_None truthy_def Let_def
      run_query_def sort_desc_def mongo_limit_def store_with_draft_eq select_view_def
      new_BlogModel_def)

lemma parse_limit_NaN: "parseInt s = None \<Longrightarrow> parse_limit (Some s) = 10"
  by (simp add: parse_limit_def)

lemma run_query_Some:
  "run_query (Some c) bs = filter (\<lambda>b. \<exists>t. publishedAt b = Some t \<and> t < c) bs"
proof -
  have "publishedAt_lt c = (\<lambda>b. \<exists>t. publishedAt b = Some t \<and> t < c)"
    by (rule ext) (rule publishedAt_lt_iff)
  then show ?thesis by (simp add: run_query_def)
qed

lemma mongo_limit_pos: "0 < n \<Longrightarrow> mongo_limit n xs = take (nat n) xs"
  by (simp add: mongo_limit_def)

lemma getAllBlogs_page_cases:
  assumes "0 < parse_limit (query_limit req)"
    and "\<not> (truthy (query_cursor req) \<and> newDate (str (query_cursor req)) = None)"
    and "matched = run_query (if truthy (query_cursor req)
                              then newDate (str (query_cursor req)) else None) bs"
    and "fetched = take (nat (parse_limit (query_limit req) + 1)) (sort_desc matched)"
  shows "(\<not> truthy (query_cursor req) \<longrightarrow> matched = bs)
       \<and> (\<forall>c. truthy (query_cursor req) \<and> newDate (str (query_cursor req)) = Some c \<longrightarrow>
              matched = filter (\<lambda>b. \<exists>t. publishedAt b = Some t \<and> t < c) bs)
       \<and> mset (sort_desc matched) = mset matched
       \<and> sorted_wrt (\<lambda>a b. publishedAt b \<le> publishedAt a) (sort_desc matched)
       \<and> (parse_limit (query_limit req) < int (length fetched) \<longrightarrow>
            getAllBlogs newDate bs req
              = (200, PagePayload ''Blogs fetched successfully''
                   (map select_view (take (nat (parse_limit (query_limit req))) fetched))
                   (publishedAt (last (take (nat (parse_limit (query_limit req))) fetched)))))
       \<and> (int (length fetched) \<le> parse_limit (query_limit req) \<longrightarrow>
            getAllBlogs newDate bs req
              = (200, PagePayload ''Blogs fetched successfully'' (map select_view fetched) None))
       \<and> parse_limit None = 10
       \<and> (\<forall>s. parseInt s = None \<longrightarrow> parse_limit (Some s) = 10)"
proof -
  define L where "L = parse_limit (query_limit req)"
  define views where "views = map select_view fetched"
  from assms(1) have Lpos: "0 < L" by (simp add: L_def)
  have a: "\<not> truthy (query_cursor req) \<longrightarrow> matched = bs"
    by (simp add: assms(3) run_query_def)
  have b: "\<forall>c. truthy (query_cursor req) \<and> newDate (str (query_cursor req)) = Some c \<longrightarrow>
              matched = filter (\<lambda>b. \<exists>t. publishedAt b = Some t \<and> t < c) bs"
    by (simp add: assms(3) run_query_Some)
  have views_eq: "views = map select_view
           (mongo_limit (parse_limit (query_limit req) + 1)
              (sort_desc (run_query (if truthy (query_cursor req)
                                     then newDate (str (query_cursor req)) else None) bs)))"
    using assms(1) by (simp add: views_def assms(4) assms(3) mongo_limit_pos)
  note shape = getAllBlogs_shape [where newDate = newDate and req = req and bs = bs
      and fetched = views, OF assms(2) views_eq, folded L_def]
  have len: "length views = length fetched" by (simp add: views_def)
  have len_le: "length fetched \<le> nat L + 1"
    using Lpos by (simp add: assms(4) L_def nat_add_distrib)
  have more: "getAllBlogs newDate bs req
              = (200, PagePayload ''Blogs fetched successfully''
                   (map select_view (take (nat L) fetched))
                   (publishedAt (last (take (nat L) fetched))))"
    if m: "L < int (length fetched)"
  proof -
    from m len_le Lpos have n: "length fetched = nat L + 1" by linarith
    have bl: "butlast views = map select_view (take (nat L) fetched)"
      by (simp add: views_def butlast_conv_take n take_map)
    from n Lpos have ne: "take (nat L) fetched \<noteq> []" by auto
    then obtain x xs where c: "map select_view (take (nat L) fetched) = x # xs"
      by (cases "map select_view (take (nat L) fetched)") auto
    from ne have "view_publishedAt (last (map select_view (take (nat L) fetched)))
                    = publishedAt (last (take (nat L) fetched))"
      by (simp add: last_map select_view_def)
    with m shape bl c show ?thesis by (simp add: len)
  qed
  have all: "getAllBlogs newDate bs req
              = (200, PagePayload ''Blogs fetched successfully'' (map select_view fetched) None)"
    if "int (length fetched) \<le> L"
    using that shape by (simp add: len views_def)
  from a b more all show ?thesis
    by (simp add: L_def mset_sort_desc sorted_sort_desc parse_limit_None parse_limit_NaN)
qed

text \<open>
  C5, as the code has it, for a call whose limit is positive (the default 10 is) and whose
  cursor is absent, empty or the text of a date. Without a cursor, or with the empty
  one, all articles match; with a cursor \<open>c\<close> those whose \<open>publishedAt\<close> is set and
  earlier than \<open>c\<close>. The matching articles are put in descending order of
  \<open>publishedAt\<close> (an article without a date counts below every date) and the first
  \<open>limit + 1\<close> are fetched. If more than \<open>limit\<close> were fetched, the page is the first
  \<open>limit\<close> of them and the next cursor is the \<open>publishedAt\<close> of the last of the page;
  otherwise the page is all that was fetched and there is no next cursor. A limit that is
  absent, or that \<^verbatim>\<open>parseInt\<close> does not read, is 10.
\<close>

theorem getAllBlogs_page:
  assumes "0 < parse_limit (query_limit req)"
    and "\<not> (truthy (query_cursor req) \<and> newDate (str (query_cursor req)) = None)"
    and "matched = run_query (if truthy (query_cursor req)
                              then newDate (str (query_cursor req)) else None) bs"
    and "fetched = take (nat (parse_limit (query_limit req) + 1)) (sort_desc matched)"
  shows "(\<not> truthy (query_cursor req) \<longrightarrow> matched = bs)
       \<and> (\<forall>c. truthy (query_cursor req) \<and> newDate (str (query_cursor req)) = Some c \<longrightarrow>
              matched = filter (\<lambda>b. \<exists>t. publishedAt b = Some t \<and> t < c) bs)
       \<and> mset (sort_desc matched) = mset matched
       \<and> sorted_wrt (\<lambda>a b. publishedAt b \<le> publishedAt a) (sort_desc matched)
       \<and> (parse_limit (query_limit req) < int (length fetched) \<longrightarrow>
            getAllBlogs newDate bs req
              = (200, PagePayload ''Blogs fetched successfully''
                   (map select_view (take (nat (parse_limit (query_limit req))) fetched))
                   (publishedAt (last (take (nat (parse_limit (query_limit req))) fetched)))))
       \<and> (int (length fetched) \<le> parse_limit (query_limit req) \<longrightarrow>
            getAllBlogs newDate bs req
              = (200, PagePayload ''Blogs fetched successfully'' (map select_view fetched) None))
       \<and> parse_limit None = 10
       \<and> (\<forall>s. parseInt s = None \<longrightarrow> parse_limit (Some s) = 10)"
  using assms by (rule getAllBlogs_page_cases)

lemma sort_desc_feed_example:
  "sort_desc feed_example =
     [new_BlogModel 2 300 ''C'' ''c'' None ''c'' ''u2'' [] True False (Some 300),
      new_BlogModel 1 200 ''B'' ''b'' None ''b'' ''u1'' [] True False (Some 200),
      new_BlogModel 0 100 ''A'' ''a'' None ''a'' ''u1'' [] True False (Some 100)]"
  by (simp add: sort_desc_def feed_example_def new_BlogModel_def)

lemma parse_limit_two: "parse_limit (Some ''2'') = 2"
  by code_simp

theorem getAllBlogs_page_witness:
  "getAllBlogs example_newDate feed_example page_of_two
     = (200, PagePayload ''Blogs fetched successfully''
          [select_view (new_BlogModel 2 300 ''C'' ''c'' None ''c'' ''u2'' [] True False (Some 300)),
           select_view (new_BlogModel 1 200 ''B'' ''b'' None ''b'' ''u1'' [] True False (Some 200))]
          (Some 200))"
proof -
  have l: "parse_limit (query_limit page_of_two) = 2"
    by (simp add: page_of_two_def parse_limit_two)
  have c: "\<not> truthy (query_cursor page_of_two)"
    by (simp add: page_of_two_def truthy_def)
  have h1: "0 < parse_limit (query_limit page_of_two)"
    by (simp add: l)
  have h2: "\<not> (truthy (query_cursor page_of_two)
               \<and> example_newDate (str (query_cursor page_of_two)) = None)"
    by (simp add: c)
  have h3: "feed_example = run_query (if truthy (query_cursor page_of_two)
                 then example_newDate (str (query_cursor page_of_two)) else None) feed_example"
    by (simp add: c run_query_def)
  have h4: "sort_desc feed_example
              = take (nat (parse_limit (query_limit page_of_two) + 1)) (sort_desc feed_example)"
    by (simp add: l sort_desc_feed_example)
  from getAllBlogs_page [where req = page_of_two and newDate = example_newDate
      and bs = feed_example and matched = feed_example and fetched = "sort_desc feed_example",
      OF h1 h2 h3 h4]
  show ?thesis
    by (simp add: l sort_desc_feed_example new_BlogModel_def)
qed

text \<open>
  C5, as the claim has it, fails at the limit \<^verbatim>\<open>-1\<close>: on the empty store no article
  is fetched, which is more than the limit, and the answer is neither a page of \<open>limit\<close>
  items nor a page with the \<open>publishedAt\<close> of its last item as cursor: reading the last
  item of the empty page throws, and the handler answers 500.
\<close>

theorem negative_limit_answers_500:
  "parse_limit (Some ''-1'') = - 1
   \<and> getAllBlogs example_newDate [] \<lparr>query_limit = Some ''-1'', query_cursor = None\<rparr>
       = (500, Message ''Internal server error'')"
proof -
  have l: "parse_limit (Some ''-1'') = - 1"
    by code_simp
  then show ?thesis
    by (simp add: getAllBlogs_def truthy_def run_query_def sort_desc_def mongo_limit_def)
qed

section \<open>Reading the feed page by page\<close>





















end
